theory Spec2Isabelle
  imports Complex_Main "HOL-Library.AList"
begin

section \<open>FreebiesBot: the change-detection and notification pipeline of main.js\<close>

text \<open>
  The program is one JavaScript file. Its pure functions are HOL functions of the same
  name; what it reads from the outside (the state file, the clock, the webhook, the
  built-ins \<^verbatim>\<open>JSON.parse\<close>, \<^verbatim>\<open>JSON.stringify\<close> and \<^verbatim>\<open>Number\<close>) is passed in explicitly;
  a raised exception is the left summand of a sum type.
  Strings are \<^typ>\<open>string\<close>, so a character is one of 256 values where JavaScript has
  UTF-16 code units; no function below looks at a character outside ASCII.
\<close>

subsection \<open>JavaScript values\<close>

text \<open>
  A number: \<^verbatim>\<open>NaN\<close>, an infinity, or a finite double, which is carried as the rational
  it is equal to. The sign of zero is not modelled: \<open>Fin 0\<close> stands for both zeros, which
  \<^verbatim>\<open>===\<close>, \<^verbatim>\<open>>=\<close> and truthiness do not tell apart.
\<close>

datatype js_num = NaN | NegInf | Fin rat | PosInf

text \<open>
  What \<^verbatim>\<open>JSON.parse\<close> returns. An object is the list of its own properties in
  property order.
\<close>

datatype json =
    JNull
  | JBool bool
  | JNumber js_num
  | JString string
  | JArray "json list"
  | JObject "(string \<times> json) list"

datatype error =
    TypeError    \<comment> \<open>a property read or write on \<^verbatim>\<open>null\<close> or \<^verbatim>\<open>undefined\<close>, or a
                       conversion of an object that has no primitive value\<close>
  | PostFailed   \<comment> \<open>\<^verbatim>\<open>axios.post\<close> rejected\<close>

text \<open>\<^verbatim>\<open>typeof v === 'object'\<close>: true of objects, of arrays and of \<^verbatim>\<open>null\<close>.\<close>

fun typeof_object :: "json \<Rightarrow> bool" where
  "typeof_object JNull = True"
| "typeof_object (JArray xs) = True"
| "typeof_object (JObject kvs) = True"
| "typeof_object v = False"

text \<open>Truthiness, as \<^verbatim>\<open>!v\<close>, \<^verbatim>\<open>v && ...\<close> and \<^verbatim>\<open>v || ...\<close> test it; \<open>None\<close> is \<^verbatim>\<open>undefined\<close>.\<close>

fun truthy :: "json \<Rightarrow> bool" where
  "truthy JNull = False"
| "truthy (JBool b) = b"
| "truthy (JNumber n) = (n \<noteq> Fin 0 \<and> n \<noteq> NaN)"
| "truthy (JString s) = (s \<noteq> [])"
| "truthy (JArray xs) = True"
| "truthy (JObject kvs) = True"

fun truthy_opt :: "json option \<Rightarrow> bool" where
  "truthy_opt None = False"
| "truthy_opt (Some v) = truthy v"

text \<open>
  The property read \<^verbatim>\<open>v[name]\<close> (and \<^verbatim>\<open>v.name\<close>), for the names this program reads:
  \<^verbatim>\<open>notified_keys\<close> and the keys \<open>derive_item_key\<close> returns, which start with
  \<^verbatim>\<open>steam_app_\<close> or hold a \<^verbatim>\<open>:\<close> (\<open>derive_item_key_shape\<close> below). Such a name is
  neither an array index nor \<^verbatim>\<open>length\<close> nor a member of a built-in prototype: on an
  object the read finds an own property or \<^verbatim>\<open>undefined\<close> (\<open>None\<close>), on an array or a
  primitive it finds \<^verbatim>\<open>undefined\<close>, and on \<^verbatim>\<open>null\<close> and \<^verbatim>\<open>undefined\<close> it raises a
  TypeError.
\<close>

fun get_member :: "json \<Rightarrow> string \<Rightarrow> error + json option" where
  "get_member JNull name = Inl TypeError"
| "get_member (JObject kvs) name = Inr (map_of kvs name)"
| "get_member v name = Inr None"

fun get_member_opt :: "json option \<Rightarrow> string \<Rightarrow> error + json option" where
  "get_member_opt None name = Inl TypeError"
| "get_member_opt (Some v) name = get_member v name"

subsection \<open>Items and the identity resolver\<close>

text \<open>
  A \<^verbatim>\<open>Date\<close> object: the invalid date, or a time in milliseconds since the epoch.
\<close>

datatype js_date = Invalid_Date | Date int

text \<open>
  The item both adapters build:
  \<^verbatim>\<open>{ source, title, url, image_url, price_text, ends_at }\<close>. Both adapters give \<^verbatim>\<open>url\<close>
  a string (the listing adapter skips a row without one); \<^verbatim>\<open>image_url\<close> and \<^verbatim>\<open>ends_at\<close>
  may be \<^verbatim>\<open>null\<close> (\<open>None\<close>).
\<close>

record item =
  source :: string
  title :: string
  url :: string
  image_url :: "string option"
  price_text :: string
  ends_at :: "js_date option"

text \<open>\<^verbatim>\<open>{ ...item, internal_key: key }\<close>\<close>

record tagged_item = item +
  internal_key :: string

definition tag :: "item \<Rightarrow> string \<Rightarrow> tagged_item" where
  "tag it key = item.extend it (tagged_item.fields key)"

text \<open>\<^verbatim>\<open>\d\<close> matches the ten ASCII digits.\<close>

definition is_digit :: "char \<Rightarrow> bool" where
  "is_digit c = (c \<in> set ''0123456789'')"

text \<open>
  \<^verbatim>\<open>/\/app\/(\d+)/\<close> matches at the start of \<open>s\<close>: the five characters \<^verbatim>\<open>/app/\<close>, then
  at least one digit.
\<close>

definition app_id_here :: "string \<Rightarrow> bool" where
  "app_id_here s = (take 5 s = ''/app/'' \<and> (case drop 5 s of [] \<Rightarrow> False | d # ds \<Rightarrow> is_digit d))"

text \<open>
  \<^verbatim>\<open>/\/app\/(\d+)/.exec(s)\<close>, reduced to its capture group \<^verbatim>\<open>match[1]\<close>: the regular
  expression is tried at each position from the left, and at the first position where
  it matches, the greedy \<^verbatim>\<open>\d+\<close> takes every digit that follows \<^verbatim>\<open>/app/\<close>.
  \<open>None\<close> is the \<^verbatim>\<open>null\<close> of no match.
\<close>

fun exec_app_id :: "string \<Rightarrow> string option" where
  "exec_app_id [] = None"
| "exec_app_id (c # cs) =
     (if app_id_here (c # cs) then Some (takeWhile is_digit (drop 5 (c # cs)))
      else exec_app_id cs)"

text \<open>
  \<^verbatim>\<open>item.url || ''\<close> is \<^verbatim>\<open>item.url\<close> for every string, the empty one included.
\<close>

definition derive_item_key :: "item \<Rightarrow> string" where
  "derive_item_key it =
     (let fallback = source it @ '':'' @ url it in
      if source it = ''Steam'' then
        (case exec_app_id (url it) of
           Some m \<Rightarrow> if m \<noteq> [] then ''steam_app_'' @ m else fallback
         | None \<Rightarrow> fallback)
      else fallback)"

subsection \<open>The change filter\<close>

text \<open>
  \<^verbatim>\<open>filter_new_items(items, state)\<close>. The loop reads \<^verbatim>\<open>state.notified_keys[key]\<close> once per
  item, so with no item it reads nothing and cannot raise.
\<close>

fun filter_new_items :: "item list \<Rightarrow> json \<Rightarrow> error + tagged_item list" where
  "filter_new_items [] state = Inr []"
| "filter_new_items (it # items) state =
     (let key = derive_item_key it in
      case get_member state ''notified_keys'' of
        Inl e \<Rightarrow> Inl e
      | Inr notified_keys \<Rightarrow>
          (case get_member_opt notified_keys key of
             Inl e \<Rightarrow> Inl e
           | Inr entry \<Rightarrow>
               (case filter_new_items items state of
                  Inl e \<Rightarrow> Inl e
                | Inr new_items \<Rightarrow>
                    Inr (if \<not> truthy_opt entry then tag it key # new_items else new_items))))"

subsection \<open>The state store\<close>

text \<open>
  The state file \<^verbatim>\<open>notified.json\<close> as the program meets it: \<open>contents\<close> is its text, or
  \<open>None\<close> when \<^verbatim>\<open>fs.existsSync\<close> says it is not there; \<^verbatim>\<open>fs.readFileSync\<close> raises
  unless \<open>readable\<close>, \<^verbatim>\<open>fs.writeFileSync\<close> raises unless \<open>writable\<close>. A write that
  raises is taken to leave the file as it was.
\<close>

record disk =
  contents :: "string option"
  readable :: bool
  writable :: bool

text \<open>What the program prints, line by line.\<close>

datatype console_line =
    Failed_to_persist_state
  | No_free_games_found
  | Sent nat
  | Error_during_check error

definition empty_state :: json where
  "empty_state = JObject [(''notified_keys'', JObject [])]"

text \<open>
  \<^verbatim>\<open>load_state()\<close>. \<open>JSON_parse\<close> is the built-in \<^verbatim>\<open>JSON.parse\<close>, \<open>None\<close> where it raises
  a SyntaxError. Everything raised inside the \<^verbatim>\<open>try\<close> is caught and ends in the
  \<^verbatim>\<open>return { notified_keys: {} }\<close> of the last line.
\<close>

definition load_state :: "(string \<Rightarrow> json option) \<Rightarrow> disk \<Rightarrow> json" where
  "load_state JSON_parse d =
     (case contents d of
        None \<Rightarrow> empty_state
      | Some raw \<Rightarrow>
          if \<not> readable d then empty_state
          else
            (case JSON_parse raw of
               None \<Rightarrow> empty_state
             | Some parsed \<Rightarrow>
                 if truthy parsed \<and> typeof_object parsed \<and>
                    (case get_member parsed ''notified_keys'' of
                       Inr (Some notified_keys) \<Rightarrow> typeof_object notified_keys
                     | Inr None \<Rightarrow> False
                     | Inl e \<Rightarrow> False)
                 then parsed
                 else empty_state))"

text \<open>
  \<^verbatim>\<open>save_state(state)\<close>. \<open>JSON_stringify\<close> is \<^verbatim>\<open>JSON.stringify(_, null, 2)\<close>. The result is
  the disk afterwards and what was printed.
\<close>

definition save_state :: "(json \<Rightarrow> string) \<Rightarrow> json \<Rightarrow> disk \<Rightarrow> disk \<times> console_line list" where
  "save_state JSON_stringify state d =
     (if writable d then (d\<lparr>contents := Some (JSON_stringify state)\<rparr>, [])
      else (d, [Failed_to_persist_state]))"

text \<open>
  A persisted state as the data model has it: an object whose \<^verbatim>\<open>notified_keys\<close> is an
  object from keys to records \<^verbatim>\<open>{ notified_at: <string> }\<close>.
\<close>

definition is_notified_record :: "json \<Rightarrow> bool" where
  "is_notified_record v =
     (case v of
        JObject props \<Rightarrow> (case map_of props ''notified_at'' of Some (JString t) \<Rightarrow> True | _ \<Rightarrow> False)
      | _ \<Rightarrow> False)"

definition persisted_state :: "json \<Rightarrow> bool" where
  "persisted_state state =
     (case state of
        JObject props \<Rightarrow>
          (case map_of props ''notified_keys'' of
             Some (JObject records) \<Rightarrow> list_all (\<lambda>kv. is_notified_record (snd kv)) records
           | _ \<Rightarrow> False)
      | _ \<Rightarrow> False)"

text \<open>The keys a state holds a property for, whatever the property's value.\<close>

definition notified_keys_of :: "json \<Rightarrow> string list" where
  "notified_keys_of state =
     (case state of
        JObject props \<Rightarrow>
          (case map_of props ''notified_keys'' of Some (JObject records) \<Rightarrow> map fst records | _ \<Rightarrow> [])
      | _ \<Rightarrow> [])"

subsection \<open>The delivery batcher\<close>

definition slice :: "'a list \<Rightarrow> nat \<Rightarrow> nat \<Rightarrow> 'a list" where
  "slice xs a b = take (b - a) (drop a xs)"

text \<open>
  The loop of \<^verbatim>\<open>chunk_array\<close>, from index \<open>i\<close> on:
  \<^verbatim>\<open>for (let i = 0; i < input_array.length; i += size) chunks.push(input_array.slice(i, i + size))\<close>,
  with \<open>n\<close> for \<^verbatim>\<open>size\<close>. With \<open>n = 0\<close> the index never moves and the loop never ends:
  \<open>None\<close>.
\<close>

function chunk_from :: "'a list \<Rightarrow> nat \<Rightarrow> nat \<Rightarrow> 'a list list option" where
  "chunk_from input_array n i =
     (if i < length input_array then
        (if n = 0 then None
         else map_option (\<lambda>chunks. slice input_array i (i + n) # chunks)
                (chunk_from input_array n (i + n)))
      else Some [])"
  by pat_completeness auto
termination
  by (relation "measure (\<lambda>(input_array, n, i). length input_array - i)") auto

declare chunk_from.simps [simp del]

definition chunk_array :: "'a list \<Rightarrow> nat \<Rightarrow> 'a list list option" where
  "chunk_array input_array n = chunk_from input_array n 0"

text \<open>
  The body of one \<^verbatim>\<open>axios.post\<close>: \<^verbatim>\<open>{ embeds, content?, allowed_mentions? }\<close>, where
  \<open>allowed_mentions\<close> holds the \<^verbatim>\<open>roles\<close> list.
\<close>

record 'e webhook_body =
  embeds :: "'e list"
  content :: "string option"
  allowed_mentions :: "string list option"

text \<open>\<^verbatim>\<open>mention_role_id\<close> is an environment variable: unset (\<open>None\<close>) or a string.\<close>

definition truthy_string :: "string option \<Rightarrow> bool" where
  "truthy_string s = (case s of None \<Rightarrow> False | Some t \<Rightarrow> t \<noteq> [])"

definition batch_body :: "string option \<Rightarrow> nat \<Rightarrow> 'e list \<Rightarrow> 'e webhook_body" where
  "batch_body mention_role_id i batch =
     (case mention_role_id of
        Some role \<Rightarrow>
          if role \<noteq> [] \<and> i = 0
          then \<lparr>embeds = batch, content = Some (''<@&'' @ role @ ''>''), allowed_mentions = Some [role]\<rparr>
          else \<lparr>embeds = batch, content = None, allowed_mentions = None\<rparr>
      | None \<Rightarrow> \<lparr>embeds = batch, content = None, allowed_mentions = None\<rparr>)"

text \<open>
  The loop of \<^verbatim>\<open>send_discord_embeds\<close> over \<^verbatim>\<open>batches[i], batches[i + 1], ...\<close>, with
  \<open>delivered\<close> so far. \<open>ok i\<close> says whether the \<open>i\<close>-th \<^verbatim>\<open>axios.post\<close> of this delivery
  resolves; when it rejects, the \<^verbatim>\<open>await\<close> raises and the function returns no value.
  The result is the list of bodies posted (the rejected one last) and either the error
  or the \<^verbatim>\<open>delivered\<close> of the returned object.
\<close>

fun post_batches ::
  "(nat \<Rightarrow> bool) \<Rightarrow> string option \<Rightarrow> nat \<Rightarrow> 'e list list \<Rightarrow> nat \<Rightarrow> 'e webhook_body list \<times> (error + nat)"
where
  "post_batches ok mention_role_id i [] delivered = ([], Inr delivered)"
| "post_batches ok mention_role_id i (batch # batches) delivered =
     (let body = batch_body mention_role_id i batch in
      if ok i then
        (case post_batches ok mention_role_id (Suc i) batches (delivered + length batch) of
           (posted, result) \<Rightarrow> (body # posted, result))
      else ([body], Inl PostFailed))"

text \<open>
  \<^verbatim>\<open>send_discord_embeds(webhook_url, embeds, mention_role_id)\<close>, with \<open>all_embeds\<close> for
  its \<^verbatim>\<open>embeds\<close>; \<open>None\<close> if it never returned. The webhook's URL does not bear on the
  result and is left out.
\<close>

definition send_discord_embeds ::
  "(nat \<Rightarrow> bool) \<Rightarrow> 'e list \<Rightarrow> string option \<Rightarrow> ('e webhook_body list \<times> (error + nat)) option"
where
  "send_discord_embeds ok all_embeds mention_role_id =
     (if all_embeds = [] then Some ([], Inr 0)
      else
        (case chunk_array all_embeds 10 of
           None \<Rightarrow> None
         | Some batches \<Rightarrow> Some (post_batches ok mention_role_id 0 batches 0)))"

subsection \<open>The notification formatter\<close>

text \<open>
  An integer in a template string, in decimal. (A JavaScript number prints this way up
  to \<open>10\<^sup>2\<^sup>1\<close>; the seconds of a valid \<^verbatim>\<open>Date\<close> stay below \<open>10\<^sup>1\<^sup>3\<close>.)
\<close>

function show_nat :: "nat \<Rightarrow> string" where
  "show_nat n =
     (if n < 10 then [''0123456789'' ! n]
      else show_nat (n div 10) @ [''0123456789'' ! (n mod 10)])"
  by pat_completeness auto
termination
  by (relation "measure (\<lambda>n. n)") auto

declare show_nat.simps [simp del]

definition show_int :: "int \<Rightarrow> string" where
  "show_int k = (if k < 0 then ''-'' @ show_nat (nat (- k)) else show_nat (nat k))"

text \<open>\<^verbatim>\<open>to_unix_seconds(date)\<close>, for a valid date of \<open>ms\<close> milliseconds.\<close>

definition to_unix_seconds :: "int \<Rightarrow> int" where
  "to_unix_seconds ms = ms div 1000"

record embed_field =
  field_name :: string
  field_value :: string
  inline :: bool

record embed =
  embed_title :: string
  embed_url :: string
  color :: nat
  footer :: string
  embed_fields :: "embed_field list"
  image :: "string option"
  thumbnail :: "string option"

text \<open>The function \<^verbatim>\<open>build_discord_embeds\<close> maps over the items.\<close>

definition build_embed :: "'a item_scheme \<Rightarrow> embed" where
  "build_embed it =
     (let fields =
            [\<lparr>field_name = ''Price'',
              field_value = (if price_text it \<noteq> [] then price_text it else ''Free''),
              inline = False\<rparr>]
            @ (case ends_at it of
                 Some (Date ms) \<Rightarrow>
                   (let unix = show_int (to_unix_seconds ms) in
                    [\<lparr>field_name = ''Ends'',
                      field_value = ''<t:'' @ unix @ '':F> (<t:'' @ unix @ '':R>)'',
                      inline = False\<rparr>])
               | _ \<Rightarrow> []);
          base = \<lparr>embed_title = title it, embed_url = url it,
                  color = (if source it = ''Epic Games'' then 16753920 else 3447003),
                  footer = source it, embed_fields = fields, image = None, thumbnail = None\<rparr>
      in if truthy_string (image_url it) then
           (if source it = ''Epic Games'' then base\<lparr>image := image_url it\<rparr>
            else base\<lparr>thumbnail := image_url it\<rparr>)
         else base)"

definition build_discord_embeds :: "'a item_scheme list \<Rightarrow> embed list" where
  "build_discord_embeds items = map build_embed items"

subsection \<open>One scan and notify cycle\<close>

text \<open>
  \<^verbatim>\<open>state.notified_keys[key] = record\<close>. On an object the property is replaced where it
  stands or added last. On an array a key of \<open>derive_item_key\<close> is no index, so the
  write adds a named property that \<^verbatim>\<open>JSON.stringify\<close> leaves out and nothing reads
  again; on a primitive the write is dropped (the file is not in strict mode).
\<close>

definition set_notified :: "json \<Rightarrow> string \<Rightarrow> json \<Rightarrow> error + json" where
  "set_notified state key record =
     (case get_member state ''notified_keys'' of
        Inl e \<Rightarrow> Inl e
      | Inr None \<Rightarrow> Inl TypeError
      | Inr (Some JNull) \<Rightarrow> Inl TypeError
      | Inr (Some (JObject records)) \<Rightarrow>
          (case state of
             JObject props \<Rightarrow>
               Inr (JObject (AList.update ''notified_keys''
                      (JObject (AList.update key record records)) props))
           | _ \<Rightarrow> Inr state)
      | Inr (Some v) \<Rightarrow> Inr state)"

text \<open>
  The loop of \<^verbatim>\<open>run_once\<close> over \<^verbatim>\<open>new_items\<close>; \<open>clock n\<close> is what
  \<^verbatim>\<open>new Date().toISOString()\<close> gives at the \<open>n\<close>-th item.
\<close>

fun record_notified :: "(nat \<Rightarrow> string) \<Rightarrow> nat \<Rightarrow> tagged_item list \<Rightarrow> json \<Rightarrow> error + json" where
  "record_notified clock n [] state = Inr state"
| "record_notified clock n (it # new_items) state =
     (if internal_key it \<noteq> [] then
        (case set_notified state (internal_key it) (JObject [(''notified_at'', JString (clock n))]) of
           Inl e \<Rightarrow> Inl e
         | Inr state' \<Rightarrow> record_notified clock (Suc n) new_items state')
      else record_notified clock (Suc n) new_items state)"

text \<open>
  What a cycle leaves behind: the disk, the lines printed and the bodies posted to
  the webhook.
\<close>

record outcome =
  disk_after :: disk
  console :: "console_line list"
  posted :: "embed webhook_body list"

text \<open>
  \<^verbatim>\<open>run_once()\<close>, given what the two adapters returned (they never raise). Every
  exception ends in the \<^verbatim>\<open>catch\<close> that prints \<^verbatim>\<open>Error during check:\<close>. \<open>None\<close> if the
  cycle never ended.
\<close>

definition run_once ::
  "(string \<Rightarrow> json option) \<Rightarrow> (json \<Rightarrow> string) \<Rightarrow> (nat \<Rightarrow> string) \<Rightarrow> (nat \<Rightarrow> bool) \<Rightarrow>
   string option \<Rightarrow> item list \<Rightarrow> item list \<Rightarrow> disk \<Rightarrow> outcome option"
where
  "run_once JSON_parse JSON_stringify clock ok notify_role_id epic_items steam_items d =
     (let state = load_state JSON_parse d;
          items = epic_items @ steam_items
      in case filter_new_items items state of
           Inl e \<Rightarrow> Some \<lparr>disk_after = d, console = [Error_during_check e], posted = []\<rparr>
         | Inr new_items \<Rightarrow>
             if new_items = [] then
               Some \<lparr>disk_after = d, console = [No_free_games_found], posted = []\<rparr>
             else
               (case send_discord_embeds ok (build_discord_embeds new_items) notify_role_id of
                  None \<Rightarrow> None
                | Some (bodies, Inl e) \<Rightarrow>
                    Some \<lparr>disk_after = d, console = [Error_during_check e], posted = bodies\<rparr>
                | Some (bodies, Inr delivered) \<Rightarrow>
                    (case record_notified clock 0 new_items state of
                       Inl e \<Rightarrow>
                         Some \<lparr>disk_after = d, console = [Error_during_check e], posted = bodies\<rparr>
                     | Inr state' \<Rightarrow>
                         (case save_state JSON_stringify state' d of
                            (d', printed) \<Rightarrow>
                              Some \<lparr>disk_after = d', console = printed @ [Sent delivered],
                                    posted = bodies\<rparr>))))"

subsection \<open>Arithmetic on numbers\<close>

text \<open>\<^verbatim>\<open>a >= b\<close> on numbers: false as soon as one side is \<^verbatim>\<open>NaN\<close>.\<close>

fun js_ge :: "js_num \<Rightarrow> js_num \<Rightarrow> bool" where
  "js_ge NaN b = False"
| "js_ge a NaN = False"
| "js_ge PosInf b = True"
| "js_ge a NegInf = True"
| "js_ge (Fin x) (Fin y) = (y \<le> x)"
| "js_ge a b = False"

text \<open>\<^verbatim>\<open>Math.max(a, b)\<close>: \<^verbatim>\<open>NaN\<close> as soon as one argument is.\<close>

fun Math_max :: "js_num \<Rightarrow> js_num \<Rightarrow> js_num" where
  "Math_max NaN b = NaN"
| "Math_max a NaN = NaN"
| "Math_max a b = (if js_ge a b then a else b)"

text \<open>
  \<^verbatim>\<open>a * b\<close> on doubles. The product of two finite doubles is their exact product
  rounded to a double; \<open>nearest\<close> is this rounding, from a rational to the nearest
  double, or to an infinity when the rational is out of range. It is a parameter: no
  statement below says what a rounded product is. A \<^verbatim>\<open>NaN\<close> factor gives \<^verbatim>\<open>NaN\<close>, so does
  zero times an infinity, and an infinity times anything else is an infinity with the
  product's sign.
\<close>

fun js_times :: "(rat \<Rightarrow> js_num) \<Rightarrow> js_num \<Rightarrow> js_num \<Rightarrow> js_num" where
  "js_times nearest NaN b = NaN"
| "js_times nearest a NaN = NaN"
| "js_times nearest (Fin x) (Fin y) = nearest (x * y)"
| "js_times nearest (Fin x) b =
     (if x = 0 then NaN else if (0 < x) = (b = PosInf) then PosInf else NegInf)"
| "js_times nearest a (Fin y) =
     (if y = 0 then NaN else if (0 < y) = (a = PosInf) then PosInf else NegInf)"
| "js_times nearest a b = (if a = b then PosInf else NegInf)"

subsection \<open>The feed adapter\<close>


















text \<open>
  \<^verbatim>\<open>Array.from(new Map(results.map(r => [r.url, r])).values())\<close>: a \<^verbatim>\<open>Map\<close> keeps a key
  where it was first set and the value last set for it.
\<close>

definition unique_by_url :: "item list \<Rightarrow> item list" where
  "unique_by_url results = map snd (fold (\<lambda>r m. AList.update (url r) r m) results [])"



subsection \<open>The check interval\<close>

text \<open>
  \<^verbatim>\<open>Number(process.env.CHECK_INTERVAL_HOURS || 6)\<close>. The variable is unset (\<open>None\<close>) or a
  string; \<open>Number\<close> is the built-in on strings.
\<close>

definition interval_hours :: "(string \<Rightarrow> js_num) \<Rightarrow> string option \<Rightarrow> js_num" where
  "interval_hours Number env =
     (case env of
        None \<Rightarrow> Fin 6
      | Some s \<Rightarrow> if s \<noteq> [] then Number s else Fin 6)"

text \<open>
  \<^verbatim>\<open>Math.max(1, interval_hours) * 60 * 60 * 1000\<close>, multiplied from the left as
  JavaScript does.
\<close>

definition interval_ms :: "(string \<Rightarrow> js_num) \<Rightarrow> (rat \<Rightarrow> js_num) \<Rightarrow> string option \<Rightarrow> js_num" where
  "interval_ms Number nearest env =
     js_times nearest
       (js_times nearest
          (js_times nearest (Math_max (Fin 1) (interval_hours Number env)) (Fin 60))
          (Fin 60))
       (Fin 1000)"

section \<open>Properties\<close>

subsection \<open>The identity resolver\<close>

text \<open>
  The regular expression looks at six characters, so what follows them does not change
  whether it matches here.
\<close>

lemma app_id_here_append: "6 \<le> length a \<Longrightarrow> app_id_here (a @ b) = app_id_here a"
  by (cases "drop 5 a") (auto simp: app_id_here_def)

lemma takeWhile_digits:
  "list_all is_digit ds \<Longrightarrow> rest = [] \<or> \<not> is_digit (hd rest) \<Longrightarrow> takeWhile is_digit (ds @ rest) = ds"
  by (induction ds) (auto simp: list_all_iff takeWhile_eq_Nil_iff hd_conv_nth intro: takeWhile_eq_all_conv[THEN iffD2] split: list.splits)

lemma exec_app_id_first:
  assumes "ds \<noteq> []" "list_all is_digit ds" "rest = [] \<or> \<not> is_digit (hd rest)"
  shows "exec_app_id (pre @ ''/app/'') = None \<Longrightarrow> exec_app_id (pre @ ''/app/'' @ ds @ rest) = Some ds"
proof (induction pre)
  case Nil
  from assms(1) obtain d ds' where ds: "ds = d # ds'" by (cases ds) auto
  with assms(2) have "is_digit d" by simp
  then have "app_id_here (''/app/'' @ ds @ rest)" by (simp add: app_id_here_def ds)
  moreover have "takeWhile is_digit (ds @ rest) = ds" using assms(2,3) by (rule takeWhile_digits)
  ultimately show ?case by simp
next
  case (Cons c p)
  have len: "6 \<le> length ((c # p) @ ''/app/'')" by simp
  from Cons.prems have no: "\<not> app_id_here ((c # p) @ ''/app/'')" and rec: "exec_app_id (p @ ''/app/'') = None"
    by (auto split: if_splits)
  have "app_id_here (((c # p) @ ''/app/'') @ ds @ rest) = app_id_here ((c # p) @ ''/app/'')"
    using len by (rule app_id_here_append)
  with no have "\<not> app_id_here (c # p @ ''/app/'' @ ds @ rest)" by simp
  then show ?case using Cons.IH[OF rec] by simp
qed

lemma app_id_here_iff: "app_id_here s \<longleftrightarrow> (\<exists>d rest. s = ''/app/'' @ d # rest \<and> is_digit d)"
proof
  assume h: "app_id_here s"
  then obtain d rest where dr: "drop 5 s = d # rest" "is_digit d" and t: "take 5 s = ''/app/''"
    by (auto simp: app_id_here_def split: list.splits)
  have "s = take 5 s @ drop 5 s" by simp
  with dr t show "\<exists>d rest. s = ''/app/'' @ d # rest \<and> is_digit d" by metis
next
  assume "\<exists>d rest. s = ''/app/'' @ d # rest \<and> is_digit d"
  then show "app_id_here s" by (auto simp: app_id_here_def)
qed

lemma exec_app_id_None_iff:
  "exec_app_id s = None \<longleftrightarrow> \<not> (\<exists>pre d rest. s = pre @ ''/app/'' @ d # rest \<and> is_digit d)"
proof (induction s)
  case Nil
  then show ?case by simp
next
  case (Cons c cs)
  show ?case
  proof (cases "app_id_here (c # cs)")
    case True
    then obtain d rest where "c # cs = [] @ ''/app/'' @ d # rest" "is_digit d"
      unfolding app_id_here_iff by auto
    then have "\<exists>pre d rest. c # cs = pre @ ''/app/'' @ d # rest \<and> is_digit d" by blast
    with True show ?thesis by simp
  next
    case False
    have "(\<exists>pre d rest. c # cs = pre @ ''/app/'' @ d # rest \<and> is_digit d)
        \<longleftrightarrow> (\<exists>pre d rest. cs = pre @ ''/app/'' @ d # rest \<and> is_digit d)" (is "?L \<longleftrightarrow> ?R")
    proof
      assume ?L
      then obtain pre d rest where e: "c # cs = pre @ ''/app/'' @ d # rest" and d: "is_digit d" by blast
      show ?R
      proof (cases pre)
        case Nil
        with e d have "app_id_here (c # cs)" unfolding app_id_here_iff by auto
        with False show ?thesis by simp
      next
        case (Cons p ps)
        with e have "cs = ps @ ''/app/'' @ d # rest" by simp
        with d show ?thesis by blast
      qed
    next
      assume ?R
      then obtain pre d rest where e: "cs = pre @ ''/app/'' @ d # rest" and d: "is_digit d" by blast
      then have "c # cs = (c # pre) @ ''/app/'' @ d # rest" by simp
      with d show ?L by blast
    qed
    with False Cons.IH show ?thesis by simp
  qed
qed

text \<open>Every key starts with \<^verbatim>\<open>steam_app_\<close> or holds a colon.\<close>

lemma derive_item_key_shape:
  "take 10 (derive_item_key it) = ''steam_app_'' \<or> CHR '':'' \<in> set (derive_item_key it)"
  by (auto simp: derive_item_key_def Let_def split: option.splits)

text \<open>
  Claim C1, as the code has it. The claim gives the numeric id to the feed source and
  \<^verbatim>\<open><source>:<url>\<close> to every item of the listing source; the code does the opposite. It
  is the listing source, \<^verbatim>\<open>Steam\<close>, whose items get a key from the id: when the URL
  holds \<^verbatim>\<open>/app/\<close> followed by one or more digits (no \<^verbatim>\<open>/\<close> need follow them), the key is
  \<^verbatim>\<open>steam_app_\<close> and the whole run of digits at the first such place. Every other item,
  every item of the feed source among them, has the key \<^verbatim>\<open><source>:<url>\<close>. The key is a
  function of the item's source and URL alone. (In the statement the URL is cut at the
  place of the id, \<open>pre @ ''/app/'' @ ds @ rest\<close>; that \<open>exec_app_id\<close> finds nothing in
  \<open>pre @ ''/app/''\<close> says, by \<open>exec_app_id_None_iff\<close>, that \<^verbatim>\<open>/app/\<close> and a digit do not occur
  earlier.)
\<close>

theorem derive_item_key_by_source:
  "(source it = ''Steam'' \<and> url it = pre @ ''/app/'' @ ds @ rest \<and> ds \<noteq> [] \<and> list_all is_digit ds \<and>
      (rest = [] \<or> \<not> is_digit (hd rest)) \<and> exec_app_id (pre @ ''/app/'') = None
      \<longrightarrow> derive_item_key it = ''steam_app_'' @ ds)
   \<and> (source it \<noteq> ''Steam'' \<or> \<not> (\<exists>pre d rest. url it = pre @ ''/app/'' @ d # rest \<and> is_digit d)
      \<longrightarrow> derive_item_key it = source it @ '':'' @ url it)"
proof (intro conjI impI)
  assume h: "source it = ''Steam'' \<and> url it = pre @ ''/app/'' @ ds @ rest \<and> ds \<noteq> [] \<and> list_all is_digit ds \<and>
      (rest = [] \<or> \<not> is_digit (hd rest)) \<and> exec_app_id (pre @ ''/app/'') = None"
  then have "exec_app_id (url it) = Some ds"
    using exec_app_id_first[of ds rest pre] by simp
  with h show "derive_item_key it = ''steam_app_'' @ ds"
    by (simp add: derive_item_key_def Let_def)
next
  assume "source it \<noteq> ''Steam'' \<or> \<not> (\<exists>pre d rest. url it = pre @ ''/app/'' @ d # rest \<and> is_digit d)"
  then have "source it \<noteq> ''Steam'' \<or> exec_app_id (url it) = None"
    by (simp only: exec_app_id_None_iff)
  then show "derive_item_key it = source it @ '':'' @ url it"
    by (auto simp: derive_item_key_def Let_def)
qed

text \<open>
  C1 at three items: a listing item with an id, a listing item without one, and a
  feed item whose URL holds \<^verbatim>\<open>/app/440/\<close>.
\<close>

theorem derive_item_key_by_source_witness:
  "derive_item_key \<lparr>source = ''Steam'', title = ''Team Fortress 2'',
        url = ''https://store.steampowered.com/app/440/Team_Fortress_2/'', image_url = None,
        price_text = ''Free'', ends_at = None\<rparr> = ''steam_app_440''
   \<and> derive_item_key \<lparr>source = ''Steam'', title = ''Bundle'',
        url = ''https://store.steampowered.com/sub/440/'', image_url = None,
        price_text = ''Free'', ends_at = None\<rparr> = ''Steam:https://store.steampowered.com/sub/440/''
   \<and> derive_item_key \<lparr>source = ''Epic Games'', title = ''Game'',
        url = ''https://store.epicgames.com/en-US/p/app/440/'', image_url = None,
        price_text = ''Free'', ends_at = Some (Date 0)\<rparr>
       = ''Epic Games:https://store.epicgames.com/en-US/p/app/440/''"
proof -
  let ?tf2 = "\<lparr>source = ''Steam'', title = ''Team Fortress 2'',
        url = ''https://store.steampowered.com/app/440/Team_Fortress_2/'', image_url = None,
        price_text = ''Free'', ends_at = None\<rparr>"
  let ?sub = "\<lparr>source = ''Steam'', title = ''Bundle'',
        url = ''https://store.steampowered.com/sub/440/'', image_url = None,
        price_text = ''Free'', ends_at = None\<rparr>"
  let ?epic = "\<lparr>source = ''Epic Games'', title = ''Game'',
        url = ''https://store.epicgames.com/en-US/p/app/440/'', image_url = None,
        price_text = ''Free'', ends_at = Some (Date 0)\<rparr>"
  have first: "exec_app_id (''https://store.steampowered.com'' @ ''/app/'') = None"
    by (simp add: app_id_here_def)
  have "derive_item_key ?tf2 = ''steam_app_'' @ ''440''"
    using derive_item_key_by_source[where it = ?tf2 and pre = "''https://store.steampowered.com''"
        and ds = "''440''" and rest = "''/Team_Fortress_2/''"] first
    by (simp add: is_digit_def)
  moreover have "exec_app_id (url ?sub) = None"
    by (simp add: app_id_here_def)
  then have "derive_item_key ?sub = source ?sub @ '':'' @ url ?sub"
    using derive_item_key_by_source[where it = ?sub] by (simp only: exec_app_id_None_iff) blast
  moreover have "derive_item_key ?epic = source ?epic @ '':'' @ url ?epic"
    using derive_item_key_by_source[where it = ?epic] by simp
  ultimately show ?thesis by simp
qed

text \<open>
  C1 as the claim words it fails at a listing item: its key is not
  \<^verbatim>\<open><source>:<url>\<close>.
\<close>

theorem derive_item_key_listing_counterexample:
  "derive_item_key \<lparr>source = ''Steam'', title = ''Team Fortress 2'',
        url = ''https://store.steampowered.com/app/440/Team_Fortress_2/'', image_url = None,
        price_text = ''Free'', ends_at = None\<rparr> = ''steam_app_440''
   \<and> derive_item_key \<lparr>source = ''Steam'', title = ''Team Fortress 2'',
        url = ''https://store.steampowered.com/app/440/Team_Fortress_2/'', image_url = None,
        price_text = ''Free'', ends_at = None\<rparr>
       \<noteq> ''Steam:https://store.steampowered.com/app/440/Team_Fortress_2/''"
  by (simp add: derive_item_key_def Let_def app_id_here_def is_digit_def)

subsection \<open>The change filter\<close>

lemma tag_fields [simp]:
  "item.truncate (tag it key) = it" "internal_key (tag it key) = key"
  "source (tag it key) = source it" "url (tag it key) = url it"
  by (simp_all add: tag_def item.defs tagged_item.defs)

lemma persisted_stateD:
  assumes "persisted_state state"
  obtains props records where "state = JObject props"
    "map_of props ''notified_keys'' = Some (JObject records)"
    "list_all (\<lambda>kv. is_notified_record (snd kv)) records"
  using assms unfolding persisted_state_def
  by (auto split: json.splits option.splits)

lemma is_notified_record_truthy: "is_notified_record v \<Longrightarrow> truthy v"
  by (cases v) (auto simp: is_notified_record_def)

lemma truthy_map_of_records:
  "list_all (\<lambda>kv. is_notified_record (snd kv)) records \<Longrightarrow>
   truthy_opt (map_of records key) \<longleftrightarrow> key \<in> set (map fst records)"
proof (induction records)
  case Nil
  then show ?case by simp
next
  case (Cons kv records)
  then show ?case by (cases kv) (auto simp: is_notified_record_truthy)
qed

lemma filter_new_items_persisted:
  assumes "persisted_state state"
  shows "filter_new_items items state =
           Inr (map (\<lambda>it. tag it (derive_item_key it))
                  (filter (\<lambda>it. derive_item_key it \<notin> set (notified_keys_of state)) items))"
proof -
  from assms obtain props records where st: "state = JObject props"
    "map_of props ''notified_keys'' = Some (JObject records)"
    "list_all (\<lambda>kv. is_notified_record (snd kv)) records"
    by (rule persisted_stateD)
  have keys: "notified_keys_of state = map fst records"
    using st by (simp add: notified_keys_of_def)
  have seen: "truthy_opt (map_of records key) \<longleftrightarrow> key \<in> set (notified_keys_of state)" for key
    using truthy_map_of_records[OF st(3)] keys by simp
  show ?thesis
  proof (induction items)
    case Nil
    then show ?case by simp
  next
    case (Cons it items)
    then show ?case using st(1,2) seen by (simp add: Let_def)
  qed
qed

text \<open>
  Claim C6. For every list of items and every persisted state, the change filter
  returns the items whose derived key the state holds no record for, in the order of
  the input, each with its key added as \<open>internal_key\<close> and its other fields as they
  were. The function's result is the new list alone: the input items and the state are
  not changed.
\<close>

theorem filter_new_items_unseen:
  assumes "persisted_state state"
  shows "filter_new_items items state =
           Inr (map (\<lambda>it. tag it (derive_item_key it))
                  (filter (\<lambda>it. derive_item_key it \<notin> set (notified_keys_of state)) items))
         \<and> (\<forall>it key. item.truncate (tag it key) = it \<and> internal_key (tag it key) = key)"
  using filter_new_items_persisted[OF assms] by simp

text \<open>
  C6 at a state that holds \<^verbatim>\<open>steam_app_440\<close> and three items, the second of them
  already notified.
\<close>

theorem filter_new_items_unseen_witness:
  "persisted_state
     (JObject [(''notified_keys'',
        JObject [(''steam_app_440'', JObject [(''notified_at'', JString ''2024-05-01T10:00:00.000Z'')])])])
   \<and> filter_new_items
       [\<lparr>source = ''Epic Games'', title = ''Game'', url = ''https://store.epicgames.com/en-US/p/game'',
          image_url = None, price_text = ''Free'', ends_at = Some (Date 1714557600000)\<rparr>,
        \<lparr>source = ''Steam'', title = ''Team Fortress 2'',
          url = ''https://store.steampowered.com/app/440/Team_Fortress_2/'', image_url = None,
          price_text = ''Free'', ends_at = None\<rparr>,
        \<lparr>source = ''Steam'', title = ''Dota 2'',
          url = ''https://store.steampowered.com/app/570/Dota_2/'', image_url = None,
          price_text = ''Free'', ends_at = None\<rparr>]
       (JObject [(''notified_keys'',
          JObject [(''steam_app_440'', JObject [(''notified_at'', JString ''2024-05-01T10:00:00.000Z'')])])])
     = Inr
       [\<lparr>source = ''Epic Games'', title = ''Game'', url = ''https://store.epicgames.com/en-US/p/game'',
          image_url = None, price_text = ''Free'', ends_at = Some (Date 1714557600000),
          internal_key = ''Epic Games:https://store.epicgames.com/en-US/p/game''\<rparr>,
        \<lparr>source = ''Steam'', title = ''Dota 2'',
          url = ''https://store.steampowered.com/app/570/Dota_2/'', image_url = None,
          price_text = ''Free'', ends_at = None, internal_key = ''steam_app_570''\<rparr>]"
proof -
  let ?state = "JObject [(''notified_keys'',
        JObject [(''steam_app_440'', JObject [(''notified_at'', JString ''2024-05-01T10:00:00.000Z'')])])]"
  have p: "persisted_state ?state"
    by (simp add: persisted_state_def is_notified_record_def)
  show ?thesis
    using p filter_new_items_unseen[OF p]
    by (simp add: notified_keys_of_def derive_item_key_def Let_def app_id_here_def is_digit_def
        tag_def item.defs tagged_item.defs)
qed

text \<open>
  Claim C10. The filter compares with the persisted state only, never with the other
  items of the same run: when the state holds no record for a key, every item of the
  input that derives this key is returned, so two such items are returned both.
\<close>

theorem filter_new_items_keeps_duplicates:
  assumes "persisted_state state" and "key \<notin> set (notified_keys_of state)"
  shows "\<exists>new_items. filter_new_items items state = Inr new_items \<and>
           filter (\<lambda>t. internal_key t = key) new_items =
             map (\<lambda>it. tag it key) (filter (\<lambda>it. derive_item_key it = key) items)"
proof -
  let ?unseen = "\<lambda>it. derive_item_key it \<notin> set (notified_keys_of state)"
  let ?new = "map (\<lambda>it. tag it (derive_item_key it)) (filter ?unseen items)"
  have "filter (\<lambda>t. internal_key t = key) ?new =
          map (\<lambda>it. tag it (derive_item_key it))
            (filter (\<lambda>it. derive_item_key it = key \<and> ?unseen it) items)"
    by (simp add: filter_map comp_def conj_commute)
  also have "filter (\<lambda>it. derive_item_key it = key \<and> ?unseen it) items =
               filter (\<lambda>it. derive_item_key it = key) items"
    using assms(2) by (intro filter_cong) auto
  also have "map (\<lambda>it. tag it (derive_item_key it)) (filter (\<lambda>it. derive_item_key it = key) items) =
               map (\<lambda>it. tag it key) (filter (\<lambda>it. derive_item_key it = key) items)"
    by (induction items) auto
  finally show ?thesis
    using filter_new_items_persisted[OF assms(1), of items] by simp
qed

text \<open>
  C10 at two listing rows of one product with different URLs and the empty state.
\<close>

theorem filter_new_items_keeps_duplicates_witness:
  "persisted_state empty_state \<and> ''steam_app_440'' \<notin> set (notified_keys_of empty_state)
   \<and> filter_new_items
       [\<lparr>source = ''Steam'', title = ''Team Fortress 2'',
          url = ''https://store.steampowered.com/app/440/Team_Fortress_2/'', image_url = None,
          price_text = ''Free'', ends_at = None\<rparr>,
        \<lparr>source = ''Steam'', title = ''TF2'',
          url = ''https://store.steampowered.com/app/440/TF2/?snr=1_7'', image_url = None,
          price_text = ''Free'', ends_at = None\<rparr>]
       empty_state
     = Inr
       [\<lparr>source = ''Steam'', title = ''Team Fortress 2'',
          url = ''https://store.steampowered.com/app/440/Team_Fortress_2/'', image_url = None,
          price_text = ''Free'', ends_at = None, internal_key = ''steam_app_440''\<rparr>,
        \<lparr>source = ''Steam'', title = ''TF2'',
          url = ''https://store.steampowered.com/app/440/TF2/?snr=1_7'', image_url = None,
          price_text = ''Free'', ends_at = None, internal_key = ''steam_app_440''\<rparr>]"
proof -
  let ?items = "[\<lparr>source = ''Steam'', title = ''Team Fortress 2'',
          url = ''https://store.steampowered.com/app/440/Team_Fortress_2/'', image_url = None,
          price_text = ''Free'', ends_at = None\<rparr>,
        \<lparr>source = ''Steam'', title = ''TF2'',
          url = ''https://store.steampowered.com/app/440/TF2/?snr=1_7'', image_url = None,
          price_text = ''Free'', ends_at = None\<rparr>]"
  have p: "persisted_state empty_state"
    by (simp add: persisted_state_def empty_state_def)
  have k: "''steam_app_440'' \<notin> set (notified_keys_of empty_state)"
    by (simp add: notified_keys_of_def empty_state_def)
  have keys: "map derive_item_key ?items = [''steam_app_440'', ''steam_app_440'']"
    by (simp add: derive_item_key_def Let_def app_id_here_def is_digit_def)
  obtain new_items where new: "filter_new_items ?items empty_state = Inr new_items"
    and dup: "filter (\<lambda>t. internal_key t = ''steam_app_440'') new_items =
             map (\<lambda>it. tag it ''steam_app_440'') (filter (\<lambda>it. derive_item_key it = ''steam_app_440'') ?items)"
    using filter_new_items_keeps_duplicates[OF p k, of ?items] by blast
  have "new_items = map (\<lambda>it. tag it ''steam_app_440'') ?items"
    using new keys by (simp add: empty_state_def Let_def split: if_splits)
  with new p k show ?thesis
    by (simp add: tag_def item.defs tagged_item.defs)
qed

subsection \<open>The delivery batcher\<close>

text \<open>
  With a positive size the loop of \<^verbatim>\<open>chunk_array\<close> ends; its chunks are the input cut
  in order, none empty, none longer than the size, and the \<open>j\<close>-th exists exactly when
  the input has an element at \<open>j * n\<close>.
\<close>

lemma chunk_from_total: "0 < n \<Longrightarrow> \<exists>chunks. chunk_from xs n i = Some chunks"
proof (induction xs n i rule: chunk_from.induct)
  case (1 input_array n i)
  show ?case
  proof (cases "i < length input_array")
    case True
    with 1 obtain chunks where "chunk_from input_array n (i + n) = Some chunks" by auto
    with True 1(2) show ?thesis by (simp add: chunk_from.simps[of input_array n i])
  next
    case False
    then show ?thesis by (simp add: chunk_from.simps[of input_array n i])
  qed
qed

lemma chunk_from_concat: "chunk_from xs n i = Some chunks \<Longrightarrow> concat chunks = drop i xs"
proof (induction xs n i arbitrary: chunks rule: chunk_from.induct)
  case (1 input_array n i)
  show ?case
  proof (cases "i < length input_array")
    case True
    with "1.prems" have n: "n \<noteq> 0" by (auto simp: chunk_from.simps[of input_array n i] split: if_splits)
    with True "1.prems" obtain rest where
      rest: "chunk_from input_array n (i + n) = Some rest" and
      chunks: "chunks = slice input_array i (i + n) # rest"
      by (auto simp: chunk_from.simps[of input_array n i])
    from "1.IH"[OF True n rest] have "concat rest = drop (i + n) input_array" .
    moreover have "drop (i + n) input_array = drop n (drop i input_array)"
      by (simp add: add.commute)
    ultimately have "concat chunks = take n (drop i input_array) @ drop n (drop i input_array)"
      by (simp add: chunks slice_def)
    then show ?thesis by (simp only: append_take_drop_id)
  next
    case False
    with "1.prems" show ?thesis by (simp add: chunk_from.simps[of input_array n i])
  qed
qed

lemma chunk_from_sizes:
  "chunk_from xs n i = Some chunks \<Longrightarrow> \<forall>c \<in> set chunks. c \<noteq> [] \<and> length c \<le> n"
proof (induction xs n i arbitrary: chunks rule: chunk_from.induct)
  case (1 input_array n i)
  show ?case
  proof (cases "i < length input_array")
    case True
    with "1.prems" have n: "n \<noteq> 0" by (auto simp: chunk_from.simps[of input_array n i] split: if_splits)
    with True "1.prems" obtain rest where
      rest: "chunk_from input_array n (i + n) = Some rest" and
      chunks: "chunks = slice input_array i (i + n) # rest"
      by (auto simp: chunk_from.simps[of input_array n i])
    from "1.IH"[OF True n rest] have "\<forall>c \<in> set rest. c \<noteq> [] \<and> length c \<le> n" .
    moreover have "slice input_array i (i + n) \<noteq> []" "length (slice input_array i (i + n)) \<le> n"
      using True n by (auto simp: slice_def)
    ultimately show ?thesis by (simp add: chunks)
  next
    case False
    with "1.prems" show ?thesis by (simp add: chunk_from.simps[of input_array n i])
  qed
qed

lemma chunk_array_23:
  assumes "length xs = 23"
  shows "\<exists>a b c. chunk_array xs 10 = Some [a, b, c] \<and> length a = 10 \<and> length b = 10 \<and> length c = 3"
  using assms
  by (simp add: chunk_array_def chunk_from.simps[of xs 10 0] chunk_from.simps[of xs 10 10]
      chunk_from.simps[of xs 10 20] chunk_from.simps[of xs 10 30] slice_def)

lemma embeds_batch_body [simp]: "embeds (batch_body role i batch) = batch"
  by (simp add: batch_body_def split: option.splits)

lemma batch_body_later [simp]:
  "0 < i \<Longrightarrow> content (batch_body role i batch) = None \<and> allowed_mentions (batch_body role i batch) = None"
  by (simp add: batch_body_def split: option.splits)

lemma post_batches_all_ok:
  "(\<forall>j < length batches. ok (i + j)) \<Longrightarrow>
   map embeds (fst (post_batches ok role i batches delivered)) = batches \<and>
   snd (post_batches ok role i batches delivered) = Inr (delivered + length (concat batches))"
proof (induction batches arbitrary: i delivered)
  case Nil
  then show ?case by simp
next
  case (Cons batch batches)
  from Cons.prems have "ok i" by force
  moreover from Cons.prems have "\<forall>j < length batches. ok (Suc i + j)" by force
  ultimately show ?case
    using Cons.IH[of "Suc i" "delivered + length batch"]
    by (cases "post_batches ok role (Suc i) batches (delivered + length batch)") (simp add: Let_def)
qed

lemma post_batches_later_plain:
  "0 < i \<Longrightarrow> \<forall>b \<in> set (fst (post_batches ok role i batches delivered)).
     content b = None \<and> allowed_mentions b = None"
proof (induction batches arbitrary: i delivered)
  case Nil
  then show ?case by simp
next
  case (Cons batch batches)
  then show ?case
    using Cons.IH[of "Suc i" "delivered + length batch"]
    by (cases "post_batches ok role (Suc i) batches (delivered + length batch)") (auto simp: Let_def)
qed

lemma post_batches_fails:
  "j < length batches \<Longrightarrow> \<not> ok (i + j) \<Longrightarrow>
   snd (post_batches ok role i batches delivered) = Inl PostFailed"
proof (induction batches arbitrary: i j delivered)
  case Nil
  then show ?case by simp
next
  case (Cons batch batches)
  show ?case
  proof (cases "ok i")
    case False
    then show ?thesis by (simp add: Let_def)
  next
    case True
    with Cons.prems obtain j' where j: "j = Suc j'" by (cases j) auto
    with Cons.prems have "j' < length batches" "\<not> ok (Suc i + j')" by auto
    from Cons.IH[OF this, of "delivered + length batch"] True show ?thesis
      by (cases "post_batches ok role (Suc i) batches (delivered + length batch)") (simp add: Let_def)
  qed
qed

lemma post_batches_prefix:
  "map embeds (fst (post_batches ok role i batches delivered)) =
     take (length (fst (post_batches ok role i batches delivered))) batches"
proof (induction batches arbitrary: i delivered)
  case Nil
  then show ?case by simp
next
  case (Cons batch batches)
  then show ?case
    using Cons.IH[of "Suc i" "delivered + length batch"]
    by (cases "post_batches ok role (Suc i) batches (delivered + length batch)") (auto simp: Let_def)
qed

lemma chunk_from_length:
  "chunk_from xs n i = Some chunks \<Longrightarrow> j < length chunks \<longleftrightarrow> i + j * n < length xs"
proof (induction xs n i arbitrary: chunks j rule: chunk_from.induct)
  case (1 input_array n i)
  show ?case
  proof (cases "i < length input_array")
    case True
    with "1.prems" have n: "n \<noteq> 0" by (auto simp: chunk_from.simps[of input_array n i] split: if_splits)
    with True "1.prems" obtain rest where
      rest: "chunk_from input_array n (i + n) = Some rest" and
      chunks: "chunks = slice input_array i (i + n) # rest"
      by (auto simp: chunk_from.simps[of input_array n i])
    show ?thesis
    proof (cases j)
      case 0
      with True show ?thesis by (simp add: chunks)
    next
      case (Suc j')
      from "1.IH"[OF True n rest, of j'] show ?thesis
        by (simp add: chunks Suc add.assoc)
    qed
  next
    case False
    with "1.prems" show ?thesis by (simp add: chunk_from.simps[of input_array n i])
  qed
qed

lemma post_batches_first:
  "ok i \<Longrightarrow> fst (post_batches ok role i (batch # batches) delivered) =
     batch_body role i batch # fst (post_batches ok role (Suc i) batches (delivered + length batch))"
  by (cases "post_batches ok role (Suc i) batches (delivered + length batch)") (simp add: Let_def)

lemma post_batches_failed_at:
  "snd (post_batches ok role i batches delivered) = Inl e \<Longrightarrow>
   (\<exists>k. length (fst (post_batches ok role i batches delivered)) = Suc k \<and>
        \<not> ok (i + k) \<and> (\<forall>j < k. ok (i + j)))"
proof (induction batches arbitrary: i delivered)
  case Nil
  then show ?case by simp
next
  case (Cons batch batches)
  show ?case
  proof (cases "ok i")
    case False
    then show ?thesis by (auto simp: Let_def)
  next
    case True
    obtain posted result where pr:
      "post_batches ok role (Suc i) batches (delivered + length batch) = (posted, result)"
      by (cases "post_batches ok role (Suc i) batches (delivered + length batch)")
    with True Cons.prems have "result = Inl e" by (simp add: Let_def)
    with pr Cons.IH[of "Suc i" "delivered + length batch"] obtain k where
      k: "length posted = Suc k" "\<not> ok (Suc i + k)" "\<forall>j < k. ok (Suc i + j)" by auto
    have "\<forall>j < Suc k. ok (i + j)"
    proof (intro allI impI)
      fix j assume "j < Suc k"
      then show "ok (i + j)" using True k(3) by (cases j) auto
    qed
    with k(1,2) True pr show ?thesis
      by (intro exI[of _ "Suc k"]) (simp add: Let_def)
  qed
qed

lemma chunk_from_take:
  "chunk_from xs n i = Some chunks \<Longrightarrow> concat (take k chunks) = take (k * n) (drop i xs)"
proof (induction xs n i arbitrary: chunks k rule: chunk_from.induct)
  case (1 input_array n i)
  show ?case
  proof (cases "i < length input_array")
    case True
    with "1.prems" have n: "n \<noteq> 0" by (auto simp: chunk_from.simps[of input_array n i] split: if_splits)
    with True "1.prems" obtain rest where
      rest: "chunk_from input_array n (i + n) = Some rest" and
      chunks: "chunks = slice input_array i (i + n) # rest"
      by (auto simp: chunk_from.simps[of input_array n i])
    show ?thesis
    proof (cases k)
      case 0
      then show ?thesis by simp
    next
      case (Suc k')
      have "concat (take k' rest) = take (k' * n) (drop (i + n) input_array)"
        using "1.IH"[OF True n rest] .
      moreover have "drop (i + n) input_array = drop n (drop i input_array)"
        by (simp add: add.commute)
      ultimately have "concat (take k chunks) =
          take n (drop i input_array) @ take (k' * n) (drop n (drop i input_array))"
        by (simp add: chunks Suc slice_def)
      also have "\<dots> = take (n + k' * n) (drop i input_array)"
        by (simp only: take_add)
      finally show ?thesis by (simp add: Suc)
    qed
  next
    case False
    with "1.prems" show ?thesis by (simp add: chunk_from.simps[of input_array n i])
  qed
qed

text \<open>
  When a call fails, delivery ends with the failure after the first failing call.
\<close>

lemma send_discord_embeds_fails:
  assumes "\<exists>i. i * 10 < length messages \<and> \<not> ok i"
  shows "\<exists>posted k. send_discord_embeds ok messages mention_role_id = Some (posted, Inl PostFailed)
            \<and> length posted = Suc k \<and> \<not> ok k \<and> (\<forall>j < k. ok j)
            \<and> concat (map embeds (butlast posted)) = take (k * 10) messages"
proof -
  from assms obtain i where i: "i * 10 < length messages" "\<not> ok i" by blast
  then have ne: "messages \<noteq> []" by auto
  obtain batches where batches: "chunk_from messages 10 0 = Some batches"
    using chunk_from_total[of 10 messages 0] by auto
  let ?run = "post_batches ok mention_role_id 0 batches 0"
  have "i < length batches" using i(1) chunk_from_length[OF batches, of i] by simp
  with i(2) have failed: "snd ?run = Inl PostFailed"
    using post_batches_fails[of i batches ok 0] by simp
  from post_batches_failed_at[OF this] obtain k where
    k: "length (fst ?run) = Suc k" "\<not> ok k" "\<forall>j < k. ok j" by auto
  have "map embeds (fst ?run) = take (Suc k) batches"
    using post_batches_prefix[of ok mention_role_id 0 batches 0] k(1) by simp
  then have "map embeds (butlast (fst ?run)) = butlast (take (Suc k) batches)"
    by (simp add: map_butlast)
  also have "\<dots> = take k batches"
  proof -
    have "Suc k \<le> length batches"
      using k(1) post_batches_prefix[of ok mention_role_id 0 batches 0]
      by (metis length_map length_take min.absorb_iff2 min.cobounded1)
    then show ?thesis by (simp add: butlast_take)
  qed
  finally have "concat (map embeds (butlast (fst ?run))) = take (k * 10) messages"
    using chunk_from_take[OF batches, of k] by simp
  with failed k ne batches show ?thesis
    by (intro exI[of _ "fst ?run"] exI[of _ k])
       (simp add: send_discord_embeds_def chunk_array_def prod_eq_iff)
qed

text \<open>
  Claim C2. When every call made to the webhook succeeds, delivery of any list of messages
  ends, having posted the messages in their order, in batches of at least one and at
  most 10 messages, one call after the other, and it returns the number of messages.
  Given 23 messages, exactly 3 calls are made, of sizes 10, 10 and 3. When a mention
  identifier is configured, the first call carries the mention directive, and no other
  call does.
\<close>

theorem send_discord_embeds_batches:
  assumes "\<forall>i. i * 10 < length messages \<longrightarrow> ok i"
  shows "\<exists>posted. send_discord_embeds ok messages mention_role_id = Some (posted, Inr (length messages))
          \<and> concat (map embeds posted) = messages
          \<and> (\<forall>b \<in> set posted. 1 \<le> length (embeds b) \<and> length (embeds b) \<le> 10)
          \<and> (length messages = 23 \<longrightarrow> map (\<lambda>b. length (embeds b)) posted = [10, 10, 3])
          \<and> (\<forall>role. mention_role_id = Some role \<and> role \<noteq> [] \<and> messages \<noteq> [] \<longrightarrow>
                content (hd posted) = Some (''<@&'' @ role @ ''>'') \<and>
                allowed_mentions (hd posted) = Some [role] \<and>
                (\<forall>b \<in> set (tl posted). content b = None \<and> allowed_mentions b = None))"
proof (cases "messages = []")
  case True
  then show ?thesis by (simp add: send_discord_embeds_def)
next
  case False
  obtain batches where batches: "chunk_array messages 10 = Some batches"
    using chunk_from_total[of 10 messages 0] by (auto simp: chunk_array_def)
  then have from0: "chunk_from messages 10 0 = Some batches" by (simp add: chunk_array_def)
  then have cat: "concat batches = messages"
    and sizes: "\<forall>c \<in> set batches. c \<noteq> [] \<and> length c \<le> 10"
    using chunk_from_concat[of messages 10 0 batches] chunk_from_sizes[of messages 10 0 batches]
    by (simp_all add: chunk_array_def)
  let ?run = "post_batches ok mention_role_id 0 batches 0"
  have all: "\<forall>j < length batches. ok (0 + j)"
    using assms chunk_from_length[OF from0] by simp
  have emb: "map embeds (fst ?run) = batches"
    and res: "snd ?run = Inr (length messages)"
    using post_batches_all_ok[OF all, of mention_role_id 0] cat by simp_all
  have send: "send_discord_embeds ok messages mention_role_id = Some (fst ?run, Inr (length messages))"
    using False batches res by (simp add: send_discord_embeds_def prod_eq_iff)
  have c1: "concat (map embeds (fst ?run)) = messages" using emb cat by simp
  have c2: "\<forall>b \<in> set (fst ?run). 1 \<le> length (embeds b) \<and> length (embeds b) \<le> 10"
  proof
    fix b assume "b \<in> set (fst ?run)"
    then have "embeds b \<in> set (map embeds (fst ?run))" by simp
    then have "embeds b \<in> set batches" by (simp only: emb)
    with sizes have "embeds b \<noteq> []" "length (embeds b) \<le> 10" by auto
    then show "1 \<le> length (embeds b) \<and> length (embeds b) \<le> 10"
      by (cases "embeds b") auto
  qed
  have c3: "length messages = 23 \<longrightarrow> map (\<lambda>b. length (embeds b)) (fst ?run) = [10, 10, 3]"
  proof
    assume "length messages = 23"
    from chunk_array_23[OF this] batches obtain a b c where
      "batches = [a, b, c]" "length a = 10" "length b = 10" "length c = 3" by auto
    then have "map length batches = [10, 10, 3]" by simp
    then have "map length (map embeds (fst ?run)) = [10, 10, 3]" by (simp only: emb)
    then show "map (\<lambda>b. length (embeds b)) (fst ?run) = [10, 10, 3]"
      by (simp only: map_map comp_def)
  qed
  have c4: "\<forall>role. mention_role_id = Some role \<and> role \<noteq> [] \<and> messages \<noteq> [] \<longrightarrow>
                content (hd (fst ?run)) = Some (''<@&'' @ role @ ''>'') \<and>
                allowed_mentions (hd (fst ?run)) = Some [role] \<and>
                (\<forall>b \<in> set (tl (fst ?run)). content b = None \<and> allowed_mentions b = None)"
  proof (intro allI impI)
    fix role assume r: "mention_role_id = Some role \<and> role \<noteq> [] \<and> messages \<noteq> []"
    from cat False obtain batch rest where br: "batches = batch # rest" by (cases batches) auto
    have "ok 0" using assms False by simp
    then have run: "fst ?run = batch_body mention_role_id 0 batch #
        fst (post_batches ok mention_role_id (Suc 0) rest (0 + length batch))"
      unfolding br by (rule post_batches_first)
    have "\<forall>b \<in> set (fst (post_batches ok mention_role_id (Suc 0) rest (0 + length batch))).
            content b = None \<and> allowed_mentions b = None"
      by (rule post_batches_later_plain) simp
    with run r show "content (hd (fst ?run)) = Some (''<@&'' @ role @ ''>'') \<and>
                allowed_mentions (hd (fst ?run)) = Some [role] \<and>
                (\<forall>b \<in> set (tl (fst ?run)). content b = None \<and> allowed_mentions b = None)"
      by (simp add: batch_body_def)
  qed
  show ?thesis
    by (rule exI[of _ "fst ?run"], intro conjI) (rule send c1 c2 c3 c4)+
qed

text \<open>
  C2 at 23 messages, here the numbers 1 to 23, with the role \<^verbatim>\<open>123\<close> to mention.
\<close>

theorem send_discord_embeds_batches_witness:
  "send_discord_embeds (\<lambda>i. True)
       [1, 2, 3, 4, 5, 6, 7, 8, 9, 10, 11, 12, 13, 14, 15, 16, 17, 18, 19, 20, 21, 22, 23 :: nat]
       (Some ''123'')
     = Some ([\<lparr>embeds = [1, 2, 3, 4, 5, 6, 7, 8, 9, 10], content = Some ''<@&123>'',
                allowed_mentions = Some [''123'']\<rparr>,
              \<lparr>embeds = [11, 12, 13, 14, 15, 16, 17, 18, 19, 20], content = None,
                allowed_mentions = None\<rparr>,
              \<lparr>embeds = [21, 22, 23], content = None, allowed_mentions = None\<rparr>],
             Inr 23)"
proof -
  let ?messages = "[1, 2, 3, 4, 5, 6, 7, 8, 9, 10, 11, 12, 13, 14, 15, 16, 17, 18, 19, 20, 21, 22, 23 :: nat]"
  have ok: "\<forall>i. i * 10 < length ?messages \<longrightarrow> (\<lambda>i. True) i" by simp
  from send_discord_embeds_batches[OF ok, of "Some ''123''"] obtain posted where
    "send_discord_embeds (\<lambda>i. True) ?messages (Some ''123'') = Some (posted, Inr (length ?messages))"
    by auto
  then show ?thesis
    by (simp add: send_discord_embeds_def chunk_array_def chunk_from.simps slice_def
        batch_body_def Let_def)
qed

text \<open>
  Claim C9, as the code has it. With no message, delivery returns zero delivered and
  makes no call. When every batch call succeeds, the count it returns is the number of
  messages. When a batch call fails, the claim has a count returned that reflects the
  batches completed before; the code returns no count then. The rejected
  \<^verbatim>\<open>await\<close> raises, so the caller gets the failure in place of a result: the calls
  before the failing one, the \<open>k\<close>-th, have delivered the first \<open>10 * k\<close> messages, and
  their count is lost with the local variable that held it.
\<close>

theorem send_discord_embeds_count:
  "send_discord_embeds ok ([] :: 'e list) mention_role_id = Some ([], Inr 0)
   \<and> ((\<forall>i. i * 10 < length (messages :: 'e list) \<longrightarrow> ok i) \<longrightarrow>
        (\<exists>posted. send_discord_embeds ok messages mention_role_id =
                    Some (posted, Inr (length messages))))
   \<and> ((\<exists>i. i * 10 < length messages \<and> \<not> ok i) \<longrightarrow>
        (\<exists>posted k. send_discord_embeds ok messages mention_role_id = Some (posted, Inl PostFailed)
            \<and> length posted = Suc k \<and> \<not> ok k \<and> (\<forall>j < k. ok j)
            \<and> concat (map embeds (butlast posted)) = take (k * 10) messages))"
proof (intro conjI impI)
  show "send_discord_embeds ok [] mention_role_id = Some ([], Inr 0)"
    by (simp add: send_discord_embeds_def)
next
  assume all: "\<forall>i. i * 10 < length messages \<longrightarrow> ok i"
  show "\<exists>posted. send_discord_embeds ok messages mention_role_id =
                    Some (posted, Inr (length messages))"
  proof (cases "messages = []")
    case True
    then show ?thesis by (simp add: send_discord_embeds_def)
  next
    case False
    obtain batches where batches: "chunk_from messages 10 0 = Some batches"
      using chunk_from_total[of 10 messages 0] by auto
    have "\<forall>j < length batches. ok (0 + j)"
      using all chunk_from_length[OF batches] by simp
    from post_batches_all_ok[OF this, of mention_role_id 0] chunk_from_concat[OF batches]
    have "snd (post_batches ok mention_role_id 0 batches 0) = Inr (length messages)" by simp
    with False batches show ?thesis
      by (simp add: send_discord_embeds_def chunk_array_def prod_eq_iff)
  qed
next
  assume "\<exists>i. i * 10 < length messages \<and> \<not> ok i"
  then show "\<exists>posted k. send_discord_embeds ok messages mention_role_id =
        Some (posted, Inl PostFailed)
            \<and> length posted = Suc k \<and> \<not> ok k \<and> (\<forall>j < k. ok j)
            \<and> concat (map embeds (butlast posted)) = take (k * 10) messages"
    by (rule send_discord_embeds_fails)
qed

text \<open>
  C9 at no message, at three messages, and at fifteen messages where the second call
  fails.
\<close>

theorem send_discord_embeds_count_witness:
  "send_discord_embeds (\<lambda>i. True) ([] :: nat list) None = Some ([], Inr 0)
   \<and> send_discord_embeds (\<lambda>i. True) [1, 2, 3 :: nat] None
       = Some ([\<lparr>embeds = [1, 2, 3], content = None, allowed_mentions = None\<rparr>], Inr 3)
   \<and> (1::nat) * 10 < length [1, 2, 3, 4, 5, 6, 7, 8, 9, 10, 11, 12, 13, 14, 15 :: nat]
   \<and> send_discord_embeds (\<lambda>i. i = 0)
       [1, 2, 3, 4, 5, 6, 7, 8, 9, 10, 11, 12, 13, 14, 15 :: nat] None
     = Some ([\<lparr>embeds = [1, 2, 3, 4, 5, 6, 7, 8, 9, 10], content = None, allowed_mentions = None\<rparr>,
              \<lparr>embeds = [11, 12, 13, 14, 15], content = None, allowed_mentions = None\<rparr>],
             Inl PostFailed)"
proof -
  let ?three = "[1, 2, 3 :: nat]"
  let ?fifteen = "[1, 2, 3, 4, 5, 6, 7, 8, 9, 10, 11, 12, 13, 14, 15 :: nat]"
  have empty: "send_discord_embeds (\<lambda>i. True) ([] :: nat list) None = Some ([], Inr 0)"
    using send_discord_embeds_count[of "\<lambda>i. True" None "[] :: nat list"] by simp
  obtain posted where "send_discord_embeds (\<lambda>i. True) ?three None = Some (posted, Inr (length ?three))"
    using send_discord_embeds_count[of "\<lambda>i. True" None ?three] by auto
  then have three: "send_discord_embeds (\<lambda>i. True) ?three None
       = Some ([\<lparr>embeds = [1, 2, 3], content = None, allowed_mentions = None\<rparr>], Inr 3)"
    by (simp add: send_discord_embeds_def chunk_array_def chunk_from.simps slice_def
        batch_body_def Let_def)
  have second: "(1::nat) * 10 < length ?fifteen \<and> \<not> (\<lambda>i. i = 0) (1::nat)" by simp
  then have "\<exists>i. i * 10 < length ?fifteen \<and> \<not> (\<lambda>i. i = 0) i" by (rule exI)
  then obtain posted' k where
    "send_discord_embeds (\<lambda>i. i = 0) ?fifteen None = Some (posted', Inl PostFailed)"
    using send_discord_embeds_count[of "\<lambda>i. i = 0" None ?fifteen] by blast
  then have fifteen: "send_discord_embeds (\<lambda>i. i = 0) ?fifteen None
     = Some ([\<lparr>embeds = [1, 2, 3, 4, 5, 6, 7, 8, 9, 10], content = None, allowed_mentions = None\<rparr>,
              \<lparr>embeds = [11, 12, 13, 14, 15], content = None, allowed_mentions = None\<rparr>],
             Inl PostFailed)"
    by (simp add: send_discord_embeds_def chunk_array_def chunk_from.simps slice_def
        batch_body_def Let_def)
  from empty three second fifteen show ?thesis by simp
qed

text \<open>
  C9 as the claim words it fails at fifteen messages when the second call is rejected:
  one batch of ten completed, and what reaches the caller is the failure, not the
  count 10.
\<close>

theorem send_discord_embeds_count_counterexample:
  "send_discord_embeds ((=) 0)
       [1, 2, 3, 4, 5, 6, 7, 8, 9, 10, 11, 12, 13, 14, 15 :: nat] None
     = Some ([\<lparr>embeds = [1, 2, 3, 4, 5, 6, 7, 8, 9, 10], content = None, allowed_mentions = None\<rparr>,
              \<lparr>embeds = [11, 12, 13, 14, 15], content = None, allowed_mentions = None\<rparr>],
             Inl PostFailed)
   \<and> send_discord_embeds ((=) 0)
       [1, 2, 3, 4, 5, 6, 7, 8, 9, 10, 11, 12, 13, 14, 15 :: nat] None
     \<noteq> Some ([\<lparr>embeds = [1, 2, 3, 4, 5, 6, 7, 8, 9, 10], content = None, allowed_mentions = None\<rparr>,
              \<lparr>embeds = [11, 12, 13, 14, 15], content = None, allowed_mentions = None\<rparr>],
             Inr 10)"
  by (simp add: send_discord_embeds_def chunk_array_def chunk_from.simps slice_def
        batch_body_def Let_def)

subsection \<open>The state store\<close>

text \<open>A persisted state passes every test \<^verbatim>\<open>load_state\<close> makes of what it parsed.\<close>

lemma persisted_state_accepted:
  assumes "persisted_state state"
  shows "truthy state \<and> typeof_object state \<and>
         (case get_member state ''notified_keys'' of
            Inr (Some notified_keys) \<Rightarrow> typeof_object notified_keys
          | Inr None \<Rightarrow> False
          | Inl e \<Rightarrow> False)"
proof -
  from assms obtain props records where "state = JObject props"
    "map_of props ''notified_keys'' = Some (JObject records)"
    by (rule persisted_stateD)
  then show ?thesis by simp
qed

text \<open>What \<^verbatim>\<open>load_state\<close> returns is the empty state or an object it parsed.\<close>

lemma load_state_cases:
  "load_state JSON_parse d = empty_state \<or>
   (\<exists>raw props notified_keys. contents d = Some raw \<and> readable d \<and>
      JSON_parse raw = Some (JObject props) \<and>
      map_of props ''notified_keys'' = Some notified_keys \<and> typeof_object notified_keys \<and>
      load_state JSON_parse d = JObject props)"
proof (cases "contents d")
  case None
  then show ?thesis by (simp add: load_state_def)
next
  case (Some raw)
  show ?thesis
  proof (cases "JSON_parse raw")
    case None
    with Some show ?thesis by (simp add: load_state_def)
  next
    case (Some parsed)
    with \<open>contents d = Some raw\<close> show ?thesis
      by (cases parsed) (auto simp: load_state_def split: option.splits)
  qed
qed

text \<open>
  Claim C4. \<^verbatim>\<open>load_state\<close> never raises (the model is a total function with no error
  result), and it returns the empty state \<^verbatim>\<open>{ notified_keys: {} }\<close> when the file is
  missing, when it cannot be read, when its content is not JSON, and when what was
  parsed is no object with a \<^verbatim>\<open>notified_keys\<close> of type \<^verbatim>\<open>'object'\<close>. There the code falls
  short of the claim: with \<^verbatim>\<open>{"notified_keys": null}\<close> the test
  \<^verbatim>\<open>typeof parsed.notified_keys === 'object'\<close> holds (\<^verbatim>\<open>typeof null\<close> is \<^verbatim>\<open>'object'\<close>), so
  the parsed object is returned as the state, and the change filter then raises a
  TypeError at the first item.
\<close>

theorem load_state_null_notified_keys:
  "(contents d = None \<or> \<not> readable d \<or> (\<exists>raw. contents d = Some raw \<and> JSON_parse raw = None)
      \<longrightarrow> load_state JSON_parse d = empty_state)
   \<and> (contents d = Some raw \<and> JSON_parse raw = Some parsed \<and>
        \<not> (\<exists>props notified_keys. parsed = JObject props \<and>
              map_of props ''notified_keys'' = Some notified_keys \<and> typeof_object notified_keys)
      \<longrightarrow> load_state JSON_parse d = empty_state)
   \<and> (contents d = Some raw \<and> readable d \<and>
        JSON_parse raw = Some (JObject [(''notified_keys'', JNull)])
      \<longrightarrow> load_state JSON_parse d = JObject [(''notified_keys'', JNull)]
        \<and> load_state JSON_parse d \<noteq> empty_state
        \<and> filter_new_items (it # items) (load_state JSON_parse d) = Inl TypeError)"
proof (intro conjI impI)
  assume "contents d = None \<or> \<not> readable d \<or> (\<exists>raw. contents d = Some raw \<and> JSON_parse raw = None)"
  then show "load_state JSON_parse d = empty_state"
    by (auto simp: load_state_def split: option.splits)
next
  assume a: "contents d = Some raw \<and> JSON_parse raw = Some parsed \<and>
        \<not> (\<exists>props notified_keys. parsed = JObject props \<and>
              map_of props ''notified_keys'' = Some notified_keys \<and> typeof_object notified_keys)"
  with load_state_cases[of JSON_parse d] show "load_state JSON_parse d = empty_state"
    by auto
next
  assume a: "contents d = Some raw \<and> readable d \<and>
        JSON_parse raw = Some (JObject [(''notified_keys'', JNull)])"
  then show "load_state JSON_parse d = JObject [(''notified_keys'', JNull)]"
    and "load_state JSON_parse d \<noteq> empty_state"
    and "filter_new_items (it # items) (load_state JSON_parse d) = Inl TypeError"
    by (simp_all add: load_state_def empty_state_def Let_def)
qed

text \<open>
  C4 at a missing file, at a file that holds \<^verbatim>\<open>[]\<close>, and at a file that holds
  \<^verbatim>\<open>{"notified_keys": null}\<close>.
\<close>

theorem load_state_null_notified_keys_witness:
  "load_state (\<lambda>raw. None) \<lparr>contents = None, readable = True, writable = True\<rparr> = empty_state
   \<and> load_state
        (\<lambda>raw. if raw = ''{\"notified_keys\": null}'' then Some (JObject [(''notified_keys'', JNull)])
              else if raw = ''[]'' then Some (JArray []) else None)
        \<lparr>contents = Some ''[]'', readable = True, writable = True\<rparr>
       = empty_state
   \<and> load_state
        (\<lambda>raw. if raw = ''{\"notified_keys\": null}'' then Some (JObject [(''notified_keys'', JNull)])
              else if raw = ''[]'' then Some (JArray []) else None)
        \<lparr>contents = Some ''{\"notified_keys\": null}'', readable = True, writable = True\<rparr>
       = JObject [(''notified_keys'', JNull)]
   \<and> load_state
        (\<lambda>raw. if raw = ''{\"notified_keys\": null}'' then Some (JObject [(''notified_keys'', JNull)])
              else if raw = ''[]'' then Some (JArray []) else None)
        \<lparr>contents = Some ''{\"notified_keys\": null}'', readable = True, writable = True\<rparr>
       \<noteq> empty_state
   \<and> filter_new_items
        [\<lparr>source = ''Steam'', title = ''Team Fortress 2'',
          url = ''https://store.steampowered.com/app/440/Team_Fortress_2/'', image_url = None,
          price_text = ''Free'', ends_at = None\<rparr>]
        (load_state
          (\<lambda>raw. if raw = ''{\"notified_keys\": null}'' then Some (JObject [(''notified_keys'', JNull)])
                else if raw = ''[]'' then Some (JArray []) else None)
          \<lparr>contents = Some ''{\"notified_keys\": null}'', readable = True, writable = True\<rparr>)
       = Inl TypeError"
proof -
  let ?parse = "\<lambda>raw. if raw = ''{\"notified_keys\": null}''
                  then Some (JObject [(''notified_keys'', JNull)])
                  else if raw = ''[]'' then Some (JArray []) else None"
  let ?d = "\<lparr>contents = Some ''{\"notified_keys\": null}'', readable = True, writable = True\<rparr>"
  let ?a = "\<lparr>contents = Some ''[]'', readable = True, writable = True\<rparr>"
  let ?tf2 = "\<lparr>source = ''Steam'', title = ''Team Fortress 2'',
          url = ''https://store.steampowered.com/app/440/Team_Fortress_2/'', image_url = None,
          price_text = ''Free'', ends_at = None\<rparr>"
  have missing: "load_state (\<lambda>raw. None) \<lparr>contents = None, readable = True, writable = True\<rparr> = empty_state"
    using load_state_null_notified_keys[where d = "\<lparr>contents = None, readable = True, writable = True\<rparr>"
        and JSON_parse = "\<lambda>raw. None"]
    by simp
  have array: "contents ?a = Some ''[]'' \<and> ?parse ''[]'' = Some (JArray []) \<and>
        \<not> (\<exists>props notified_keys. JArray [] = JObject props \<and>
              map_of props ''notified_keys'' = Some notified_keys \<and> typeof_object notified_keys)"
    by simp
  have no_object: "load_state ?parse ?a = empty_state"
    using load_state_null_notified_keys[where d = ?a and JSON_parse = ?parse
        and raw = "''[]''" and parsed = "JArray []",
        THEN conjunct2, THEN conjunct1, THEN mp, OF array] .
  have on_disk: "contents ?d = Some ''{\"notified_keys\": null}'' \<and> readable ?d \<and>
        ?parse ''{\"notified_keys\": null}'' = Some (JObject [(''notified_keys'', JNull)])"
    by simp
  have bad: "load_state ?parse ?d = JObject [(''notified_keys'', JNull)]
        \<and> load_state ?parse ?d \<noteq> empty_state
        \<and> filter_new_items (?tf2 # []) (load_state ?parse ?d) = Inl TypeError"
    using load_state_null_notified_keys[where d = ?d and JSON_parse = ?parse
        and raw = "''{\"notified_keys\": null}''" and it = ?tf2 and items = "[]",
        THEN conjunct2, THEN conjunct2, THEN mp, OF on_disk] .
  show ?thesis by (rule conjI[OF missing conjI[OF no_object bad]])
qed

text \<open>
  Claim C7. For every persisted state, \<^verbatim>\<open>save_state\<close> followed by \<^verbatim>\<open>load_state\<close> on the
  same file gives back the saved state, so the same mapping of keys to records. This
  is where the write and the read succeed, and \<^verbatim>\<open>JSON.parse\<close> reads back what
  \<^verbatim>\<open>JSON.stringify\<close> wrote for this state, as the built-ins do.
\<close>

theorem save_state_load_state:
  assumes "persisted_state state"
    and "writable d" and "readable d"
    and "JSON_parse (JSON_stringify state) = Some state"
  shows "load_state JSON_parse (fst (save_state JSON_stringify state d)) = state
         \<and> snd (save_state JSON_stringify state d) = []"
  using assms(2-4) persisted_state_accepted[OF assms(1)]
  by (simp add: save_state_def load_state_def)

text \<open>
  C7 at a state with one record, with the JSON text of this state (white space left
  out) for what is written and read.
\<close>

theorem save_state_load_state_witness:
  "persisted_state
     (JObject [(''notified_keys'',
        JObject [(''steam_app_440'', JObject [(''notified_at'', JString ''2024-05-01T10:00:00.000Z'')])])])
   \<and> load_state
        (\<lambda>raw. if raw = ''{\"notified_keys\":{\"steam_app_440\":{\"notified_at\":\"2024-05-01T10:00:00.000Z\"}}}''
              then Some (JObject [(''notified_keys'',
                     JObject [(''steam_app_440'',
                       JObject [(''notified_at'', JString ''2024-05-01T10:00:00.000Z'')])])])
              else None)
        (fst (save_state
           (\<lambda>state. ''{\"notified_keys\":{\"steam_app_440\":{\"notified_at\":\"2024-05-01T10:00:00.000Z\"}}}'')
           (JObject [(''notified_keys'',
              JObject [(''steam_app_440'', JObject [(''notified_at'', JString ''2024-05-01T10:00:00.000Z'')])])])
           \<lparr>contents = None, readable = True, writable = True\<rparr>))
     = JObject [(''notified_keys'',
         JObject [(''steam_app_440'', JObject [(''notified_at'', JString ''2024-05-01T10:00:00.000Z'')])])]"
proof -
  let ?state = "JObject [(''notified_keys'',
        JObject [(''steam_app_440'', JObject [(''notified_at'', JString ''2024-05-01T10:00:00.000Z'')])])]"
  let ?text = "''{\"notified_keys\":{\"steam_app_440\":{\"notified_at\":\"2024-05-01T10:00:00.000Z\"}}}''"
  let ?parse = "\<lambda>raw. if raw = ?text then Some ?state else None"
  let ?d = "\<lparr>contents = None, readable = True, writable = True\<rparr>"
  have p: "persisted_state ?state"
    by (simp add: persisted_state_def is_notified_record_def)
  have w: "writable ?d" and r: "readable ?d" by simp_all
  have rt: "?parse ((\<lambda>state. ?text) ?state) = Some ?state" by simp
  from save_state_load_state[where JSON_parse = ?parse and JSON_stringify = "\<lambda>state. ?text", OF p w r rt] p
  show ?thesis by simp
qed

subsection \<open>One scan and notify cycle\<close>

text \<open>
  Whatever is raised inside \<^verbatim>\<open>run_once\<close> ends the cycle before \<^verbatim>\<open>save_state\<close> is
  reached.
\<close>

lemma run_once_error_keeps_disk:
  assumes "run_once JSON_parse JSON_stringify clock ok notify_role_id epic_items steam_items d = Some out"
    and "Error_during_check e \<in> set (console out)"
  shows "disk_after out = d"
  using assms
  by (auto simp: run_once_def Let_def save_state_def
      split: sum.splits if_splits option.splits prod.splits)

text \<open>
  Claim C5. When the change filter has found new items and one of the batch calls that
  delivering them takes fails, the cycle ends in the handler of \<^verbatim>\<open>run_once\<close>, which
  prints \<^verbatim>\<open>Error during check:\<close>; the state file is left as it was, so on the next
  cycle the filter, given the same items, selects the same new items again.
\<close>

theorem run_once_delivery_failure:
  assumes "filter_new_items (epic_items @ steam_items) (load_state JSON_parse d) = Inr new_items"
    and "\<exists>i. i * 10 < length new_items \<and> \<not> ok i"
  shows "\<exists>out. run_once JSON_parse JSON_stringify clock ok notify_role_id epic_items steam_items d
                  = Some out
           \<and> console out = [Error_during_check PostFailed]
           \<and> disk_after out = d
           \<and> filter_new_items (epic_items @ steam_items) (load_state JSON_parse (disk_after out))
               = Inr new_items"
proof -
  from assms(2) have ne: "new_items \<noteq> []" by auto
  have "\<exists>i. i * 10 < length (build_discord_embeds new_items) \<and> \<not> ok i"
    using assms(2) by (simp add: build_discord_embeds_def)
  from send_discord_embeds_fails[OF this, of notify_role_id] obtain bodies where
    "send_discord_embeds ok (build_discord_embeds new_items) notify_role_id
       = Some (bodies, Inl PostFailed)" by blast
  with assms(1) ne have
    "run_once JSON_parse JSON_stringify clock ok notify_role_id epic_items steam_items d
       = Some \<lparr>disk_after = d, console = [Error_during_check PostFailed], posted = bodies\<rparr>"
    by (simp add: run_once_def Let_def)
  with assms(1) show ?thesis by simp
qed

text \<open>
  C5 at a cycle with no state file, one new listing item and a webhook that rejects
  every call.
\<close>

theorem run_once_delivery_failure_witness:
  "filter_new_items ([] @ [\<lparr>source = ''Steam'', title = ''Team Fortress 2'',
          url = ''https://store.steampowered.com/app/440/Team_Fortress_2/'', image_url = None,
          price_text = ''Free'', ends_at = None\<rparr>])
       (load_state (\<lambda>raw. None) \<lparr>contents = None, readable = True, writable = True\<rparr>)
     = Inr [\<lparr>source = ''Steam'', title = ''Team Fortress 2'',
          url = ''https://store.steampowered.com/app/440/Team_Fortress_2/'', image_url = None,
          price_text = ''Free'', ends_at = None, internal_key = ''steam_app_440''\<rparr>]
   \<and> run_once (\<lambda>raw. None) (\<lambda>state. []) (\<lambda>n. ''2024-05-01T10:00:00.000Z'') (\<lambda>i. False) None
       [] [\<lparr>source = ''Steam'', title = ''Team Fortress 2'',
          url = ''https://store.steampowered.com/app/440/Team_Fortress_2/'', image_url = None,
          price_text = ''Free'', ends_at = None\<rparr>]
       \<lparr>contents = None, readable = True, writable = True\<rparr>
     = Some \<lparr>disk_after = \<lparr>contents = None, readable = True, writable = True\<rparr>,
             console = [Error_during_check PostFailed],
             posted = [\<lparr>embeds = [\<lparr>embed_title = ''Team Fortress 2'',
                 embed_url = ''https://store.steampowered.com/app/440/Team_Fortress_2/'',
                 color = 3447003, footer = ''Steam'',
                 embed_fields = [\<lparr>field_name = ''Price'', field_value = ''Free'', inline = False\<rparr>],
                 image = None, thumbnail = None\<rparr>], content = None, allowed_mentions = None\<rparr>]\<rparr>"
proof -
  let ?tf2 = "\<lparr>source = ''Steam'', title = ''Team Fortress 2'',
          url = ''https://store.steampowered.com/app/440/Team_Fortress_2/'', image_url = None,
          price_text = ''Free'', ends_at = None\<rparr>"
  let ?d = "\<lparr>contents = None, readable = True, writable = True\<rparr>"
  let ?new = "[\<lparr>source = ''Steam'', title = ''Team Fortress 2'',
          url = ''https://store.steampowered.com/app/440/Team_Fortress_2/'', image_url = None,
          price_text = ''Free'', ends_at = None, internal_key = ''steam_app_440''\<rparr>]"
  have new: "filter_new_items ([] @ [?tf2]) (load_state (\<lambda>raw. None) ?d) = Inr ?new"
    by (simp add: load_state_def empty_state_def derive_item_key_def Let_def app_id_here_def
        is_digit_def tag_def item.defs tagged_item.defs)
  have fails: "\<exists>i. i * 10 < length ?new \<and> \<not> (\<lambda>i. False) i" by simp
  from run_once_delivery_failure[OF new fails, of "\<lambda>state. []" "\<lambda>n. ''2024-05-01T10:00:00.000Z''" None]
  obtain out where
    "run_once (\<lambda>raw. None) (\<lambda>state. []) (\<lambda>n. ''2024-05-01T10:00:00.000Z'') (\<lambda>i. False) None
       [] [?tf2] ?d = Some out" by blast
  then have "run_once (\<lambda>raw. None) (\<lambda>state. []) (\<lambda>n. ''2024-05-01T10:00:00.000Z'') (\<lambda>i. False) None
       [] [?tf2] ?d
     = Some \<lparr>disk_after = ?d, console = [Error_during_check PostFailed],
             posted = [\<lparr>embeds = [\<lparr>embed_title = ''Team Fortress 2'',
                 embed_url = ''https://store.steampowered.com/app/440/Team_Fortress_2/'',
                 color = 3447003, footer = ''Steam'',
                 embed_fields = [\<lparr>field_name = ''Price'', field_value = ''Free'', inline = False\<rparr>],
                 image = None, thumbnail = None\<rparr>], content = None, allowed_mentions = None\<rparr>]\<rparr>"
    by (simp add: run_once_def Let_def load_state_def empty_state_def derive_item_key_def
        app_id_here_def is_digit_def tag_def item.defs tagged_item.defs
        build_discord_embeds_def build_embed_def truthy_string_def send_discord_embeds_def
        chunk_array_def chunk_from.simps slice_def batch_body_def)
  with new show ?thesis by simp
qed

subsection \<open>The feed adapter\<close>

text \<open>
  The \<^verbatim>\<open>Map\<close> by URL keeps one of the results pushed for each URL, and nothing else.
\<close>

lemma set_update_subset: "set (AList.update k v al) \<subseteq> insert (k, v) (set al)"
  by (induction al) auto


lemma fold_update_entries:
  "set (fold (\<lambda>r m. AList.update (url r) r m) rs m) \<subseteq> (\<lambda>r. (url r, r)) ` set rs \<union> set m"
proof (induction rs arbitrary: m)
  case Nil
  then show ?case by simp
next
  case (Cons r rs)
  have "set (fold (\<lambda>r m. AList.update (url r) r m) rs (AList.update (url r) r m))
          \<subseteq> (\<lambda>r. (url r, r)) ` set rs \<union> set (AList.update (url r) r m)"
    by (rule Cons.IH)
  also have "\<dots> \<subseteq> (\<lambda>r. (url r, r)) ` set rs \<union> insert (url r, r) (set m)"
    using set_update_subset[of "url r" r m] by blast
  finally show ?case by auto
qed

lemma fold_update_distinct:
  "distinct (map fst m) \<Longrightarrow> distinct (map fst (fold (\<lambda>r m. AList.update (url r) r m) rs m))"
  by (induction rs arbitrary: m) (auto simp: distinct_update)



lemma unique_by_url_distinct: "distinct (map url (unique_by_url rs))"
proof -
  let ?m = "fold (\<lambda>r m. AList.update (url r) r m) rs []"
  have e: "\<forall>kv \<in> set ?m. fst kv = url (snd kv)"
    using fold_update_entries[of rs "[]"] by auto
  then have "map (url \<circ> snd) ?m = map fst ?m" by (intro map_cong) auto
  moreover have "distinct (map fst ?m)" by (rule fold_update_distinct) simp
  ultimately have "distinct (map (url \<circ> snd) ?m)" by (simp only:)
  then show ?thesis by (simp add: unique_by_url_def)
qed










subsection \<open>The check interval\<close>

text \<open>\<^verbatim>\<open>Math.max(1, h)\<close> is at least 1 for every \<open>h\<close> but \<^verbatim>\<open>NaN\<close>.\<close>

lemma Math_max_floor: "h \<noteq> NaN \<Longrightarrow> js_ge (Math_max (Fin 1) h) (Fin 1)"
  by (cases h) auto

text \<open>
  Claim C8. With the variable unset, or set to the empty text, the interval is 6 hours.
  A configured text that is no number falls through the floor that the claim gives
  every configured value: \<^verbatim>\<open>Number\<close> reads it as \<^verbatim>\<open>NaN\<close>, \<^verbatim>\<open>Math.max(1, NaN)\<close> is \<^verbatim>\<open>NaN\<close>,
  and so is the interval in milliseconds, whatever the rounding of the products; it is
  not at least one hour.
\<close>

theorem interval_ms_not_a_number:
  "interval_hours Number None = Fin 6
   \<and> interval_hours Number (Some []) = Fin 6
   \<and> (s \<noteq> [] \<and> Number s = NaN \<longrightarrow>
        interval_hours Number (Some s) = NaN
        \<and> Math_max (Fin 1) (interval_hours Number (Some s)) = NaN
        \<and> interval_ms Number nearest (Some s) = NaN
        \<and> \<not> js_ge (interval_ms Number nearest (Some s)) (Fin 3600000))"
  by (simp add: interval_hours_def interval_ms_def)

text \<open>
  C8 with the variable unset and set to \<^verbatim>\<open>abc\<close>, for a \<^verbatim>\<open>Number\<close> that reads a text as
  \<^verbatim>\<open>NaN\<close>.
\<close>

theorem interval_ms_not_a_number_witness:
  "interval_hours (\<lambda>s. NaN) None = Fin 6
   \<and> interval_hours (\<lambda>s. NaN) (Some ''abc'') = NaN
   \<and> interval_ms (\<lambda>s. NaN) Fin (Some ''abc'') = NaN
   \<and> \<not> js_ge (interval_ms (\<lambda>s. NaN) Fin (Some ''abc'')) (Fin 3600000)"
  using interval_ms_not_a_number[where Number = "\<lambda>s. NaN" and nearest = Fin and s = "''abc''"]
  by simp

end
